theory Spec2Isabelle
  imports Complex_Main "HOL-Library.Word" "HOL-Library.Log_Nat"
begin

section \<open>JavaScript values used by the challenges screen\<close>

subsection \<open>Numbers\<close>

text \<open>
  A TypeScript \<open>number\<close> is an IEEE-754 binary64 value. A finite value is kept as the
  rational it denotes; the two infinities and NaN are separate constructors. The sign of
  zero is not tracked: every zero is taken as \<open>+0\<close>, which is the zero that an integer
  day count and the quotients and products of non-negative values yield.
\<close>

datatype jsnum = Num rat | PInf | NInf | NaN

text \<open>Rounding a rational to an integer, ties to the even neighbour.\<close>

definition rne :: "rat \<Rightarrow> int" where
  "rne x = (let f = \<lfloor>x\<rfloor>; r = x - of_int f in
     if r < 1 / 2 then f
     else if 1 / 2 < r then f + 1
     else if even f then f else f + 1)"

text \<open>The binary exponent of a positive rational: \<open>2 powi expo q \<le> q < 2 powi (expo q + 1)\<close>.\<close>

definition expo :: "rat \<Rightarrow> int" where
  "expo q = (let k = bitlen (fst (quotient_of q)) - bitlen (snd (quotient_of q)) in
     if 2 powi k \<le> q then k else k - 1)"

text \<open>
  The exponent of the last place of the binary64 format at a positive rational: 53
  significant bits, and never below the subnormal spacing \<open>2 powi (-1074)\<close>.
\<close>

definition ulp_exp :: "rat \<Rightarrow> int" where
  "ulp_exp q = max (expo q) (- 1022) - 52"

definition rdq :: "rat \<Rightarrow> rat" where
  "rdq q = of_int (rne (q / 2 powi ulp_exp q)) * 2 powi ulp_exp q"

text \<open>Round to nearest, ties to even: the value, before the range of the format is applied.\<close>

definition rnd :: "rat \<Rightarrow> rat" where
  "rnd q = (if q = 0 then 0 else if 0 < q then rdq q else - rdq (- q))"

text \<open>The rounded number: a value that rounds to \<open>2 powi 1024\<close> or beyond overflows.\<close>

definition fl :: "rat \<Rightarrow> jsnum" where
  "fl q = (if 2 powi 1024 \<le> rnd q then PInf
     else if rnd q \<le> - (2 powi 1024) then NInf
     else Num (rnd q))"

text \<open>An integer of the JSON response read as a number: the nearest binary64 value.\<close>

definition js_of_int :: "int \<Rightarrow> jsnum" where
  "js_of_int n = fl (of_int n)"

text \<open>The operator \<open>/\<close> on numbers.\<close>

fun jdiv :: "jsnum \<Rightarrow> jsnum \<Rightarrow> jsnum" where
  "jdiv NaN y = NaN"
| "jdiv x NaN = NaN"
| "jdiv (Num a) (Num b) =
     (if b = 0 then (if a = 0 then NaN else if 0 < a then PInf else NInf)
      else fl (a / b))"
| "jdiv (Num a) y = Num 0"
| "jdiv PInf (Num b) = (if 0 \<le> b then PInf else NInf)"
| "jdiv NInf (Num b) = (if 0 \<le> b then NInf else PInf)"
| "jdiv x y = NaN"

text \<open>The operator \<open>*\<close> on numbers.\<close>

fun jmul :: "jsnum \<Rightarrow> jsnum \<Rightarrow> jsnum" where
  "jmul NaN y = NaN"
| "jmul x NaN = NaN"
| "jmul (Num a) (Num b) = fl (a * b)"
| "jmul (Num a) PInf = (if a = 0 then NaN else if 0 < a then PInf else NInf)"
| "jmul (Num a) NInf = (if a = 0 then NaN else if 0 < a then NInf else PInf)"
| "jmul PInf (Num b) = (if b = 0 then NaN else if 0 < b then PInf else NInf)"
| "jmul NInf (Num b) = (if b = 0 then NaN else if 0 < b then NInf else PInf)"
| "jmul PInf PInf = PInf"
| "jmul PInf NInf = NInf"
| "jmul NInf PInf = NInf"
| "jmul NInf NInf = PInf"

subsection \<open>Strings\<close>

text \<open>
  Identifiers, labels and messages are \<open>string\<close>s. The notes text, which the check-in
  handler trims, is a sequence of UTF-16 code units, so that every white-space character
  of \<open>String.prototype.trim\<close> is a single element.
\<close>

type_synonym ustring = "16 word list"

definition is_ws :: "16 word \<Rightarrow> bool" where
  "is_ws c \<longleftrightarrow>
     c = 0x0009 \<or> c = 0x000A \<or> c = 0x000B \<or> c = 0x000C \<or> c = 0x000D \<or> c = 0x0020
     \<or> c = 0x00A0 \<or> c = 0x1680 \<or> (0x2000 \<le> c \<and> c \<le> 0x200A)
     \<or> c = 0x2028 \<or> c = 0x2029 \<or> c = 0x202F \<or> c = 0x205F \<or> c = 0x3000 \<or> c = 0xFEFF"

definition trim :: "ustring \<Rightarrow> ustring" where
  "trim s = rev (dropWhile is_ws (rev (dropWhile is_ws s)))"

section \<open>Data model\<close>

text \<open>The interface \<open>Challenge\<close>, as the backend returns it.\<close>

record challenge =
  id_c :: string
  challenge_type :: string
  title :: string
  description :: string
  duration_days :: int
  start_date :: string
  end_date :: string
  completed_days :: int
  is_active :: bool
  is_completed :: bool
  badges :: "string list"

record template =
  type_t :: string
  title_t :: string
  description_t :: string
  duration :: int
  icon :: string
  color :: string

definition challengeTemplates :: "template list" where
  "challengeTemplates =
    [\<lparr>type_t = ''hydration'', title_t = ''3-Day Hydration Hustle'',
      description_t = ''Drink 8 glasses of water daily'', duration = 3,
      icon = ''water'', color = ''#06B6D4''\<rparr>,
     \<lparr>type_t = ''no_sugar'', title_t = ''No Sugar Week'',
      description_t = ''Avoid added sugars for 7 days'', duration = 7,
      icon = ''close-circle'', color = ''#EF4444''\<rparr>,
     \<lparr>type_t = ''mindful_morning'', title_t = ''Mindful Morning Challenge'',
      description_t = ''10 minutes of meditation each morning'', duration = 7,
      icon = ''sunny'', color = ''#F59E0B''\<rparr>,
     \<lparr>type_t = ''exercise'', title_t = ''30-Day Fitness Journey'',
      description_t = ''30 minutes of exercise daily'', duration = 30,
      icon = ''fitness'', color = ''#10B981''\<rparr>,
     \<lparr>type_t = ''sleep'', title_t = ''Sleep Master Challenge'',
      description_t = ''8 hours of sleep for 14 days'', duration = 14,
      icon = ''moon'', color = ''#6366F1''\<rparr>]"

record badge_data =
  label :: string
  icon_b :: string
  color_b :: string

definition badgeInfo :: "string \<rightharpoonup> badge_data" where
  "badgeInfo = map_of
    [(''3_day_streak'', \<lparr>label = ''3 Day Streak'', icon_b = ''flame'', color_b = ''#F59E0B''\<rparr>),
     (''week_warrior'', \<lparr>label = ''Week Warrior'', icon_b = ''trophy'', color_b = ''#EF4444''\<rparr>),
     (''challenge_completed'', \<lparr>label = ''Champion'', icon_b = ''ribbon'', color_b = ''#6366F1''\<rparr>)]"

text \<open>The component's state: one field for each \<open>useState\<close>.\<close>

record state =
  challenges :: "challenge list"
  isLoading :: bool
  modalVisible :: bool
  checkInModal :: bool
  selectedChallenge :: "challenge option"
  checkInNotes :: ustring
  isSubmitting :: bool

definition initial_state :: state where
  "initial_state = \<lparr>challenges = [], isLoading = True, modalVisible = False,
     checkInModal = False, selectedChallenge = None, checkInNotes = [],
     isSubmitting = False\<rparr>"

subsection \<open>Requests, responses and effects\<close>

record create_body =
  cb_challenge_type :: string
  cb_title :: string
  cb_description :: string
  cb_duration_days :: int

text \<open>A field that is \<open>undefined\<close> is left out of the JSON body: \<open>None\<close>.\<close>

record checkin_body =
  challenge_id :: string
  notes_b :: "ustring option"

text \<open>
  The data of a successful check-in response, taken to be well formed: it has the three
  fields the handler reads, and \<open>badges\<close> is an array.
\<close>

record checkin_response =
  ai_feedback :: string
  completed_days_r :: int
  badges_r :: "string list"

text \<open>
  A rejected request. \<open>detail\<close> is \<open>error.response?.data?.detail\<close>: \<open>None\<close> when the
  error has no response, no body or no detail.
\<close>

datatype http_error = HttpError (detail: "string option")

text \<open>
  The three alerts of the screen. The success alert of a check-in is a template string;
  its parts are kept apart: the feedback, the day count, and whether the line
  "New badges earned!" is appended.
\<close>

datatype alert =
    ErrorAlert string
  | StartedAlert
  | GreatJobAlert string int bool

datatype effect =
    HttpGetActive
  | HttpPostCreate create_body
  | HttpPostCheckin checkin_body
  | ShowAlert alert
  | ConsoleError string

text \<open>\<open>error.response?.data?.detail || fallback\<close>: the empty string is falsy.\<close>

definition error_message :: "http_error \<Rightarrow> string \<Rightarrow> string" where
  "error_message e fallback =
     (case detail e of None \<Rightarrow> fallback | Some d \<Rightarrow> if d = [] then fallback else d)"

section \<open>Handlers\<close>

text \<open>
  Each asynchronous handler is split at its \<open>await\<close>: the part that runs when the
  control is pressed, and the part that runs when the request settles, which takes the
  outcome of the request (\<open>Inl\<close> a rejection, \<open>Inr\<close> the response data).
  \<open>loadChallenges()\<close> is called without \<open>await\<close>; the call shows as the effect
  \<open>HttpGetActive\<close>, and its outcome arrives later through \<open>loadChallenges_settle\<close>.
\<close>

definition loadChallenges_settle :: "http_error + challenge list \<Rightarrow> state \<Rightarrow> state \<times> effect list" where
  "loadChallenges_settle r st =
     (case r of
        Inr cs \<Rightarrow> (st\<lparr>challenges := cs, isLoading := False\<rparr>, [])
      | Inl e \<Rightarrow> (st\<lparr>isLoading := False\<rparr>, [ConsoleError ''Error loading challenges:'']))"

definition startChallenge_begin :: "template \<Rightarrow> state \<Rightarrow> state \<times> effect list" where
  "startChallenge_begin t st =
     (st\<lparr>isSubmitting := True\<rparr>,
      [HttpPostCreate \<lparr>cb_challenge_type = type_t t, cb_title = title_t t,
         cb_description = description_t t, cb_duration_days = duration t\<rparr>])"

definition startChallenge_settle :: "http_error + unit \<Rightarrow> state \<Rightarrow> state \<times> effect list" where
  "startChallenge_settle r st =
     (case r of
        Inr u \<Rightarrow> (st\<lparr>modalVisible := False, isSubmitting := False\<rparr>,
                   [HttpGetActive, ShowAlert StartedAlert])
      | Inl e \<Rightarrow> (st\<lparr>isSubmitting := False\<rparr>,
                   [ShowAlert (ErrorAlert (error_message e ''Failed to start challenge''))]))"

text \<open>\<open>checkInNotes.trim() || undefined\<close>.\<close>

definition notes_field :: "ustring \<Rightarrow> ustring option" where
  "notes_field s = (if trim s = [] then None else Some (trim s))"

definition handleCheckIn_begin :: "state \<Rightarrow> state \<times> effect list" where
  "handleCheckIn_begin st =
     (case selectedChallenge st of
        None \<Rightarrow> (st, [])
      | Some ch \<Rightarrow>
          (st\<lparr>isSubmitting := True\<rparr>,
           [HttpPostCheckin \<lparr>challenge_id = id_c ch, notes_b = notes_field (checkInNotes st)\<rparr>]))"

definition handleCheckIn_settle :: "http_error + checkin_response \<Rightarrow> state \<Rightarrow> state \<times> effect list" where
  "handleCheckIn_settle r st =
     (case r of
        Inr resp \<Rightarrow>
          (st\<lparr>checkInModal := False, checkInNotes := [], isSubmitting := False\<rparr>,
           [HttpGetActive,
            ShowAlert (GreatJobAlert (ai_feedback resp) (completed_days_r resp)
                         (0 < length (badges_r resp)))])
      | Inl e \<Rightarrow> (st\<lparr>isSubmitting := False\<rparr>,
                   [ShowAlert (ErrorAlert (error_message e ''Failed to check in''))]))"

text \<open>One whole check-in attempt: the press, then the outcome of its request.\<close>

definition handleCheckIn :: "http_error + checkin_response \<Rightarrow> state \<Rightarrow> state \<times> effect list" where
  "handleCheckIn r st =
     (case selectedChallenge st of
        None \<Rightarrow> (st, [])
      | Some ch \<Rightarrow>
          (let (st1, eff1) = handleCheckIn_begin st;
               (st2, eff2) = handleCheckIn_settle r st1
           in (st2, eff1 @ eff2)))"

section \<open>Rendering\<close>

text \<open>\<open>(challenge.completed_days / challenge.duration_days) * 100\<close>.\<close>

definition progress :: "challenge \<Rightarrow> jsnum" where
  "progress ch =
     jmul (jdiv (js_of_int (completed_days ch)) (js_of_int (duration_days ch))) (Num 100)"

text \<open>
  Modelled from the spec: \<open>differenceInDays\<close> is imported from the library date-fns and is
  not defined in this repository. The spec's "whole-day difference between endDate and
  the current instant" is taken as the library documents it: the number of full days
  (of 86400000 ms) between two instants, rounded toward zero. Instants are milliseconds
  since the epoch.
\<close>

definition differenceInDays :: "int \<Rightarrow> int \<Rightarrow> int" where
  "differenceInDays l r =
     (if r \<le> l then (l - r) div 86400000 else - ((r - l) div 86400000))"

text \<open>
  \<open>differenceInDays(new Date(challenge.end_date), new Date())\<close>. The parser of the
  \<open>Date\<close> constructor is a parameter (\<open>None\<close> for a string that is no date, where the
  difference is NaN), and so is the current instant.
\<close>

definition daysLeft :: "(string \<Rightarrow> int option) \<Rightarrow> int \<Rightarrow> challenge \<Rightarrow> int option" where
  "daysLeft parse now ch = map_option (\<lambda>e. differenceInDays e now) (parse (end_date ch))"

record badge_view =
  bv_key :: string
  bv_icon :: "string option"
  bv_color :: "string option"
  bv_label :: "string option"

text \<open>The button "Check In Today": its background and the challenge its press selects.\<close>

record check_in_button =
  button_color :: "string option"
  button_target :: challenge

text \<open>
  The card of one challenge. A style or prop that is \<open>undefined\<close> is \<open>None\<close>; an element
  that a \<open>&&\<close> guard leaves out is \<open>None\<close> (or \<open>False\<close> for the banner, which has no
  content of its own).
\<close>

record card =
  card_key :: string
  icon_background :: string
  icon_name :: string
  icon_color :: "string option"
  card_title :: string
  card_description :: string
  progress_width :: jsnum
  progress_color :: "string option"
  progress_text :: "int \<times> int"
  badge_views :: "badge_view list option"
  check_in :: "check_in_button option"
  completed_banner :: bool

definition render_badge :: "string \<Rightarrow> badge_view" where
  "render_badge badge =
     (let badgeData = badgeInfo badge in
      \<lparr>bv_key = badge, bv_icon = map_option icon_b badgeData,
       bv_color = map_option color_b badgeData, bv_label = map_option label badgeData\<rparr>)"

definition renderChallenge :: "(string \<Rightarrow> int option) \<Rightarrow> int \<Rightarrow> challenge \<Rightarrow> card" where
  "renderChallenge parse now ch =
     (let template = find (\<lambda>t. type_t t = challenge_type ch) challengeTemplates;
          progress = progress ch;
          daysLeft = daysLeft parse now ch
      in \<lparr>card_key = id_c ch,
          icon_background =
            (case template of None \<Rightarrow> ''undefined20'' | Some t \<Rightarrow> color t @ ''20''),
          icon_name =
            (case template of None \<Rightarrow> ''star''
             | Some t \<Rightarrow> if icon t = [] then ''star'' else icon t),
          icon_color = map_option color template,
          card_title = title ch,
          card_description = description ch,
          progress_width = progress,
          progress_color = map_option color template,
          progress_text = (completed_days ch, duration_days ch),
          badge_views =
            (if 0 < length (badges ch) then Some (map render_badge (badges ch)) else None),
          check_in =
            (if \<not> is_completed ch
             then Some \<lparr>button_color = map_option color template, button_target = ch\<rparr>
             else None),
          completed_banner = is_completed ch\<rparr>)"

text \<open>
  The screen: a spinner alone while \<open>isLoading\<close>; otherwise the empty view or one card
  for each challenge, in order.
\<close>

datatype list_view = Spinner | EmptyView | Cards "card list"

definition render_list :: "(string \<Rightarrow> int option) \<Rightarrow> int \<Rightarrow> state \<Rightarrow> list_view" where
  "render_list parse now st =
     (if isLoading st then Spinner
      else if length (challenges st) = 0 then EmptyView
      else Cards (map (renderChallenge parse now) (challenges st)))"

text \<open>The prop \<open>disabled\<close> of each template card and of the submit button.\<close>

definition template_disabled :: "state \<Rightarrow> bool" where
  "template_disabled st = isSubmitting st"

definition submit_disabled :: "state \<Rightarrow> bool" where
  "submit_disabled st = isSubmitting st"

section \<open>The screen as a transition system\<close>

text \<open>
  A configuration is the state together with the mutating requests (the two POSTs) that
  have been sent and have not settled. A step is one event of the event loop: a press of
  a control that is rendered and enabled in the current state, or the settling of a
  request. A press handler runs up to its \<open>await\<close> against the committed state.
\<close>

datatype mreq = CreateReq | CheckinReq

fun posts :: "effect list \<Rightarrow> mreq list" where
  "posts [] = []"
| "posts (HttpPostCreate b # es) = CreateReq # posts es"
| "posts (HttpPostCheckin b # es) = CheckinReq # posts es"
| "posts (e # es) = posts es"

inductive step :: "state \<times> mreq list \<Rightarrow> state \<times> mreq list \<Rightarrow> bool" where
  load_settles:
    "step (st, rs) (fst (loadChallenges_settle r st), rs)"
| open_templates:
    "\<not> isLoading st \<Longrightarrow> step (st, rs) (st\<lparr>modalVisible := True\<rparr>, rs)"
| close_templates:
    "\<not> isLoading st \<Longrightarrow> modalVisible st \<Longrightarrow> step (st, rs) (st\<lparr>modalVisible := False\<rparr>, rs)"
| press_template:
    "\<not> isLoading st \<Longrightarrow> modalVisible st \<Longrightarrow> \<not> template_disabled st \<Longrightarrow>
     t \<in> set challengeTemplates \<Longrightarrow>
     step (st, rs) (fst (startChallenge_begin t st), rs @ posts (snd (startChallenge_begin t st)))"
| create_settles:
    "CreateReq \<in> set rs \<Longrightarrow>
     step (st, rs) (fst (startChallenge_settle r st), remove1 CreateReq rs)"
| press_check_in_today:
    "\<not> isLoading st \<Longrightarrow> ch \<in> set (challenges st) \<Longrightarrow> \<not> is_completed ch \<Longrightarrow>
     step (st, rs) (st\<lparr>selectedChallenge := Some ch, checkInModal := True\<rparr>, rs)"
| close_check_in:
    "\<not> isLoading st \<Longrightarrow> checkInModal st \<Longrightarrow> step (st, rs) (st\<lparr>checkInModal := False\<rparr>, rs)"
| edit_notes:
    "\<not> isLoading st \<Longrightarrow> checkInModal st \<Longrightarrow> step (st, rs) (st\<lparr>checkInNotes := s\<rparr>, rs)"
| press_submit:
    "\<not> isLoading st \<Longrightarrow> checkInModal st \<Longrightarrow> \<not> submit_disabled st \<Longrightarrow>
     step (st, rs) (fst (handleCheckIn_begin st), rs @ posts (snd (handleCheckIn_begin st)))"
| checkin_settles:
    "CheckinReq \<in> set rs \<Longrightarrow>
     step (st, rs) (fst (handleCheckIn_settle r st), remove1 CheckinReq rs)"

definition reachable :: "state \<times> mreq list \<Rightarrow> bool" where
  "reachable c = step\<^sup>*\<^sup>* (initial_state, []) c"

section \<open>Observations and sample data\<close>

text \<open>The alerts among the effects of a handler: what the user is shown.\<close>

fun alerts_of :: "effect list \<Rightarrow> alert list" where
  "alerts_of [] = []"
| "alerts_of (ShowAlert a # es) = a # alerts_of es"
| "alerts_of (e # es) = alerts_of es"

text \<open>A challenge created from the first template, one day in.\<close>

definition ch0 :: challenge where
  "ch0 = \<lparr>id_c = ''c1'', challenge_type = ''hydration'', title = ''3-Day Hydration Hustle'',
     description = ''Drink 8 glasses of water daily'', duration_days = 3,
     start_date = ''2025-01-01'', end_date = ''2025-01-04'', completed_days = 1,
     is_active = True, is_completed = False, badges = []\<rparr>"

text \<open>A completed challenge, one that already holds a badge, and one of an unknown type.\<close>

definition ch_done :: challenge where
  "ch_done = ch0\<lparr>id_c := ''c2'', completed_days := 3, is_active := False, is_completed := True,
     badges := [''3_day_streak'', ''challenge_completed'']\<rparr>"

definition ch_streak :: challenge where
  "ch_streak = ch0\<lparr>duration_days := 7, completed_days := 3, badges := [''3_day_streak'']\<rparr>"

definition ch_unknown :: challenge where
  "ch_unknown = ch0\<lparr>challenge_type := ''yoga'', badges := [''early_bird'']\<rparr>"

text \<open>A check-in response whose badges are the ones \<open>ch_streak\<close> already has.\<close>

definition resp_same :: checkin_response where
  "resp_same = \<lparr>ai_feedback = ''Keep going'', completed_days_r = 4, badges_r = [''3_day_streak'']\<rparr>"

text \<open>The state while the creation of a challenge is in flight.\<close>

definition st_creating :: state where
  "st_creating = \<lparr>challenges = [ch0], isLoading = False, modalVisible = True,
     checkInModal = False, selectedChallenge = None, checkInNotes = [],
     isSubmitting = True\<rparr>"

text \<open>The invariant of the transition system.\<close>

definition one_in_flight :: "state \<times> mreq list \<Rightarrow> bool" where
  "one_in_flight c \<longleftrightarrow> length (snd c) \<le> 1 \<and> (isSubmitting (fst c) \<longleftrightarrow> snd c \<noteq> [])"

section \<open>Properties\<close>

subsection \<open>Trimming\<close>

lemma trim_decomp:
  "\<exists>pre suf. s = pre @ trim s @ suf \<and> (\<forall>c\<in>set pre. is_ws c) \<and> (\<forall>c\<in>set suf. is_ws c)"
proof -
  let ?a = "takeWhile is_ws s"
  let ?m = "dropWhile is_ws s"
  let ?b = "rev (takeWhile is_ws (rev ?m))"
  have "trim s @ ?b = rev (takeWhile is_ws (rev ?m) @ dropWhile is_ws (rev ?m))"
    by (simp only: trim_def rev_append)
  also have "\<dots> = rev (rev ?m)" by (simp only: takeWhile_dropWhile_id)
  also have "\<dots> = ?m" by (simp only: rev_rev_ident)
  finally have m: "trim s @ ?b = ?m" .
  have "?a @ ?m = s" by (rule takeWhile_dropWhile_id)
  with m have "s = ?a @ trim s @ ?b" by (simp only:)
  moreover have "\<forall>c\<in>set ?a. is_ws c" by (auto dest: set_takeWhileD)
  moreover have "\<forall>c\<in>set ?b. is_ws c" by (auto dest: set_takeWhileD)
  ultimately show ?thesis by blast
qed

lemma trim_ends:
  assumes "trim s \<noteq> []"
  shows "\<not> is_ws (hd (trim s))" and "\<not> is_ws (last (trim s))"
proof -
  let ?m = "dropWhile is_ws s"
  let ?d = "dropWhile is_ws (rev ?m)"
  from assms have d: "?d \<noteq> []" by (simp add: trim_def)
  then have "\<not> is_ws (hd ?d)" by (rule hd_dropWhile)
  with d show "\<not> is_ws (last (trim s))" by (simp add: trim_def last_rev)
  have mne: "?m \<noteq> []"
  proof
    assume "?m = []"
    then have "?d = []" by (simp only: rev.simps dropWhile.simps)
    with d show False by simp
  qed
  then have h: "\<not> is_ws (hd ?m)" by (rule hd_dropWhile)
  have "takeWhile is_ws (rev ?m) @ ?d = rev ?m" by (rule takeWhile_dropWhile_id)
  then have "last (rev ?m) = last ?d" using d by (metis last_appendR)
  moreover have "hd (trim s) = last ?d" using d by (simp add: trim_def hd_rev)
  moreover have "last (rev ?m) = hd ?m" using mne by (simp add: last_rev)
  ultimately show "\<not> is_ws (hd (trim s))" using h by simp
qed

lemma trim_blank_example: "trim [0x20, 0x2003, 0x0A] = []"
  by (simp add: trim_def is_ws_def)

subsection \<open>The notes of a check-in\<close>

text \<open>
  C7. The check-in request carries the trimmed notes: the notes field is the input with
  its leading and trailing white space removed, and when nothing is left the field is
  absent from the body. A notes field holding the empty string is never sent.
\<close>

theorem notes_trimmed_never_empty:
  assumes "selectedChallenge st = Some ch"
  shows "\<exists>n. snd (handleCheckIn_begin st) =
               [HttpPostCheckin \<lparr>challenge_id = id_c ch, notes_b = n\<rparr>]
           \<and> n = (if trim (checkInNotes st) = [] then None else Some (trim (checkInNotes st)))
           \<and> n \<noteq> Some []
           \<and> (\<exists>pre suf. checkInNotes st = pre @ trim (checkInNotes st) @ suf
                 \<and> (\<forall>c\<in>set pre. is_ws c) \<and> (\<forall>c\<in>set suf. is_ws c))
           \<and> (trim (checkInNotes st) \<noteq> [] \<longrightarrow>
                 \<not> is_ws (hd (trim (checkInNotes st))) \<and> \<not> is_ws (last (trim (checkInNotes st))))"
  using assms trim_decomp [of "checkInNotes st"] trim_ends [of "checkInNotes st"]
  by (simp add: handleCheckIn_begin_def notes_field_def)

theorem notes_trimmed_never_empty_witness:
  "snd (handleCheckIn_begin
     (initial_state\<lparr>selectedChallenge := Some ch0, checkInNotes := [0x20, 0x2003, 0x0A]\<rparr>))
     = [HttpPostCheckin \<lparr>challenge_id = ''c1'', notes_b = None\<rparr>]"
  using notes_trimmed_never_empty
    [of "initial_state\<lparr>selectedChallenge := Some ch0, checkInNotes := [0x20, 0x2003, 0x0A]\<rparr>" ch0]
  by (simp add: trim_blank_example ch0_def)

subsection \<open>The check-in affordance\<close>

text \<open>
  C6. A card offers the button "Check In Today" exactly when its challenge is not
  completed, and shows the completed banner exactly when it is; the button selects the
  card's own challenge. Once the screen has loaded, every challenge of the state, completed
  or not, has its card in the rendered list.
\<close>

theorem check_in_offered_iff_not_completed:
  "(check_in (renderChallenge parse now ch) \<noteq> None \<longleftrightarrow> \<not> is_completed ch)
   \<and> (completed_banner (renderChallenge parse now ch) \<longleftrightarrow> is_completed ch)
   \<and> (\<forall>b. check_in (renderChallenge parse now ch) = Some b \<longrightarrow> button_target b = ch)
   \<and> (\<not> isLoading st \<and> ch \<in> set (challenges st) \<longrightarrow>
        render_list parse now st = Cards (map (renderChallenge parse now) (challenges st))
        \<and> renderChallenge parse now ch \<in> set (map (renderChallenge parse now) (challenges st)))"
  by (auto simp: renderChallenge_def render_list_def Let_def)

theorem check_in_offered_iff_not_completed_witness:
  "check_in (renderChallenge (\<lambda>s. None) 0 ch_done) = None
   \<and> completed_banner (renderChallenge (\<lambda>s. None) 0 ch_done)
   \<and> render_list (\<lambda>s. None) 0 (initial_state\<lparr>challenges := [ch0, ch_done], isLoading := False\<rparr>)
       = Cards [renderChallenge (\<lambda>s. None) 0 ch0, renderChallenge (\<lambda>s. None) 0 ch_done]"
  using check_in_offered_iff_not_completed
    [of "\<lambda>s. None" 0 ch_done "initial_state\<lparr>challenges := [ch0, ch_done], isLoading := False\<rparr>"]
  by (simp add: ch_done_def ch0_def)

subsection \<open>The outcome of a check-in\<close>

text \<open>
  C2, as stated, fails: the challenge already holds the badge \<open>3_day_streak\<close>, the response
  returns the same badges, the set difference is empty, and the alert still carries the
  line "New badges earned!".
\<close>

theorem new_badges_signal_counterexample:
  "set (badges_r resp_same) - set (badges ch_streak) = {}
   \<and> alerts_of (snd (handleCheckIn (Inr resp_same)
        (initial_state\<lparr>selectedChallenge := Some ch_streak\<rparr>)))
       = [GreatJobAlert ''Keep going'' 4 True]"
  by (simp add: resp_same_def ch_streak_def ch0_def handleCheckIn_def handleCheckIn_begin_def
        handleCheckIn_settle_def)

text \<open>
  C2, amended. After a successful check-in the one alert shown carries the line "New
  badges earned!" exactly when the badges array of the response is not empty; the badges
  of the selected challenge play no part. So the line is shown whenever the returned
  badges hold one the challenge did not have, and is left out when the response returns
  no badges.
\<close>

theorem new_badges_signal_iff_badges_returned:
  assumes "selectedChallenge st = Some ch"
  shows "alerts_of (snd (handleCheckIn (Inr resp) st))
           = [GreatJobAlert (ai_feedback resp) (completed_days_r resp) (badges_r resp \<noteq> [])]
         \<and> (set (badges_r resp) - set (badges ch) \<noteq> {} \<longrightarrow> badges_r resp \<noteq> [])"
  using assms
  by (auto simp: handleCheckIn_def handleCheckIn_begin_def handleCheckIn_settle_def)

theorem new_badges_signal_iff_badges_returned_witness:
  "alerts_of (snd (handleCheckIn (Inr (resp_same\<lparr>badges_r := []\<rparr>))
      (initial_state\<lparr>selectedChallenge := Some ch_streak\<rparr>)))
     = [GreatJobAlert ''Keep going'' 4 False]"
  using new_badges_signal_iff_badges_returned
    [of "initial_state\<lparr>selectedChallenge := Some ch_streak\<rparr>" ch_streak
        "resp_same\<lparr>badges_r := []\<rparr>"]
  by (simp add: resp_same_def)

lemma error_message_nonempty: "fallback \<noteq> [] \<Longrightarrow> error_message e fallback \<noteq> []"
  by (simp add: error_message_def split: option.splits)

text \<open>
  C4. A check-in whose request is rejected leaves the state as it was before the press
  (the flag \<open>isSubmitting\<close>, raised for the request, is lowered again): the challenge list,
  the selected challenge, the notes and the rendered list are unchanged. One alert with a
  non-empty error message is shown, the submit button is enabled, and pressing it sends
  the same request again.
\<close>

theorem failed_check_in_changes_nothing:
  assumes "selectedChallenge st = Some ch"
  shows "fst (handleCheckIn (Inl e) st) = st\<lparr>isSubmitting := False\<rparr>
         \<and> (\<not> isSubmitting st \<longrightarrow> fst (handleCheckIn (Inl e) st) = st)
         \<and> challenges (fst (handleCheckIn (Inl e) st)) = challenges st
         \<and> selectedChallenge (fst (handleCheckIn (Inl e) st)) = Some ch
         \<and> checkInNotes (fst (handleCheckIn (Inl e) st)) = checkInNotes st
         \<and> render_list parse now (fst (handleCheckIn (Inl e) st)) = render_list parse now st
         \<and> alerts_of (snd (handleCheckIn (Inl e) st))
             = [ErrorAlert (error_message e ''Failed to check in'')]
         \<and> error_message e ''Failed to check in'' \<noteq> []
         \<and> \<not> submit_disabled (fst (handleCheckIn (Inl e) st))
         \<and> snd (handleCheckIn_begin (fst (handleCheckIn (Inl e) st)))
             = snd (handleCheckIn_begin st)"
  using assms
  by (auto simp: handleCheckIn_def handleCheckIn_begin_def handleCheckIn_settle_def
        submit_disabled_def error_message_nonempty render_list_def)

theorem failed_check_in_changes_nothing_witness:
  "fst (handleCheckIn (Inl (HttpError (Some ''Already checked in today'')))
          (initial_state\<lparr>challenges := [ch0], isLoading := False, checkInModal := True,
             selectedChallenge := Some ch0\<rparr>))
     = initial_state\<lparr>challenges := [ch0], isLoading := False, checkInModal := True,
             selectedChallenge := Some ch0\<rparr>
   \<and> alerts_of (snd (handleCheckIn (Inl (HttpError (Some ''Already checked in today'')))
          (initial_state\<lparr>challenges := [ch0], isLoading := False, checkInModal := True,
             selectedChallenge := Some ch0\<rparr>)))
     = [ErrorAlert ''Already checked in today'']"
  using failed_check_in_changes_nothing
    [of "initial_state\<lparr>challenges := [ch0], isLoading := False, checkInModal := True,
             selectedChallenge := Some ch0\<rparr>" ch0
        "HttpError (Some ''Already checked in today'')"]
  by (simp add: initial_state_def error_message_def)

subsection \<open>Loading the list\<close>

text \<open>
  C5, as stated, fails: when the GET of the active challenges is rejected, no alert is
  among the effects; the user is shown nothing.
\<close>

theorem load_failure_counterexample:
  "alerts_of (snd (loadChallenges_settle (Inl (HttpError None))
      (initial_state\<lparr>challenges := [ch0]\<rparr>))) = []"
  by (simp add: loadChallenges_settle_def)

text \<open>
  C5, amended. When the GET of the active challenges is rejected, the challenge list is
  left as it was (only \<open>isLoading\<close> is lowered), and the error is written to the console:
  no alert is shown.
\<close>

theorem load_failure_keeps_list:
  "fst (loadChallenges_settle (Inl e) st) = st\<lparr>isLoading := False\<rparr>
   \<and> challenges (fst (loadChallenges_settle (Inl e) st)) = challenges st
   \<and> snd (loadChallenges_settle (Inl e) st) = [ConsoleError ''Error loading challenges:'']
   \<and> alerts_of (snd (loadChallenges_settle (Inl e) st)) = []"
  by (simp add: loadChallenges_settle_def)

subsection \<open>Unknown template types and badges\<close>

lemma find_template_None:
  "challenge_type ch \<notin> set (map type_t challengeTemplates) \<Longrightarrow>
   find (\<lambda>t. type_t t = challenge_type ch) challengeTemplates = None"
  by (force simp: find_None_iff)

text \<open>
  C8, as stated, fails: for a challenge of the unknown type \<open>yoga\<close> with the unknown badge
  \<open>early_bird\<close>, the card has no colour at all for its icon and its progress bar, and
  the badge has no icon, no colour and no label.
\<close>

theorem unknown_type_counterexample:
  "icon_color (renderChallenge (\<lambda>s. None) 0 ch_unknown) = None
   \<and> progress_color (renderChallenge (\<lambda>s. None) 0 ch_unknown) = None
   \<and> badge_views (renderChallenge (\<lambda>s. None) 0 ch_unknown)
       = Some [\<lparr>bv_key = ''early_bird'', bv_icon = None, bv_color = None, bv_label = None\<rparr>]"
  by (simp add: renderChallenge_def ch_unknown_def ch0_def challengeTemplates_def
        render_badge_def badgeInfo_def)

text \<open>
  C8, amended. Rendering is total. For a challenge whose type is not in the catalog the
  icon falls back to \<open>star\<close>, and the colours taken from the template (icon, progress
  bar, check-in button) are undefined; for a badge that is not in the registry the icon,
  the colour and the label are undefined.
\<close>

theorem unknown_type_renders_without_values:
  "(challenge_type ch \<notin> set (map type_t challengeTemplates) \<longrightarrow>
      icon_name (renderChallenge parse now ch) = ''star''
      \<and> icon_color (renderChallenge parse now ch) = None
      \<and> progress_color (renderChallenge parse now ch) = None
      \<and> (\<forall>b. check_in (renderChallenge parse now ch) = Some b \<longrightarrow> button_color b = None))
   \<and> (badge \<notin> dom badgeInfo \<longrightarrow>
      render_badge badge = \<lparr>bv_key = badge, bv_icon = None, bv_color = None, bv_label = None\<rparr>)"
  by (auto simp: renderChallenge_def find_template_None render_badge_def Let_def)

theorem unknown_type_renders_without_values_witness:
  "icon_name (renderChallenge (\<lambda>s. None) 0 ch_unknown) = ''star''
   \<and> render_badge ''early_bird''
       = \<lparr>bv_key = ''early_bird'', bv_icon = None, bv_color = None, bv_label = None\<rparr>"
  using unknown_type_renders_without_values [of ch_unknown "\<lambda>s. None" 0 "''early_bird''"]
  by (simp add: ch_unknown_def ch0_def challengeTemplates_def badgeInfo_def dom_def)

subsection \<open>The flag \<open>isSubmitting\<close>\<close>

lemma single_request: "length rs \<le> 1 \<Longrightarrow> x \<in> set rs \<Longrightarrow> rs = [x]"
  by (cases rs) auto

lemma step_one_in_flight:
  assumes "step c c'" and "one_in_flight c"
  shows "one_in_flight c'"
  using assms
proof (induction rule: step.induct)
  case (create_settles rs st r)
  then have "rs = [CreateReq]" by (simp add: one_in_flight_def single_request)
  then show ?case by (simp add: one_in_flight_def startChallenge_settle_def split: sum.splits)
next
  case (checkin_settles rs st r)
  then have "rs = [CheckinReq]" by (simp add: one_in_flight_def single_request)
  then show ?case by (simp add: one_in_flight_def handleCheckIn_settle_def split: sum.splits)
next
  case (press_submit st rs)
  then show ?case
    by (auto simp: one_in_flight_def handleCheckIn_begin_def submit_disabled_def
          split: option.splits)
next
  case (press_template st t rs)
  then show ?case
    by (auto simp: one_in_flight_def startChallenge_begin_def template_disabled_def)
next
  case (load_settles st rs r)
  then show ?case by (auto simp: one_in_flight_def loadChallenges_settle_def split: sum.splits)
qed (auto simp: one_in_flight_def)

lemma reachable_one_in_flight: "reachable c \<Longrightarrow> one_in_flight c"
  unfolding reachable_def
proof (induction rule: rtranclp_induct)
  case base
  show ?case by (simp add: one_in_flight_def initial_state_def)
next
  case (step y z)
  then show ?case by (blast intro: step_one_in_flight)
qed

lemma reachable_creating: "reachable (st_creating, [CreateReq])"
proof -
  let ?s1 = "initial_state\<lparr>challenges := [ch0], isLoading := False\<rparr>"
  let ?s2 = "?s1\<lparr>modalVisible := True\<rparr>"
  have "step (initial_state, []) (fst (loadChallenges_settle (Inr [ch0]) initial_state), [])"
    by (rule step.load_settles)
  then have 1: "step (initial_state, []) (?s1, [])" by (simp add: loadChallenges_settle_def)
  have 2: "step (?s1, []) (?s2, [])"
    by (rule step.open_templates) simp
  have "step (?s2, []) (fst (startChallenge_begin (hd challengeTemplates) ?s2),
          [] @ posts (snd (startChallenge_begin (hd challengeTemplates) ?s2)))"
    by (rule step.press_template)
      (simp_all add: template_disabled_def initial_state_def challengeTemplates_def)
  then have 3: "step (?s2, []) (st_creating, [CreateReq])"
    by (simp add: startChallenge_begin_def st_creating_def initial_state_def)
  from 1 have "step\<^sup>*\<^sup>* (initial_state, []) (?s1, [])" by (rule r_into_rtranclp)
  then have "step\<^sup>*\<^sup>* (initial_state, []) (?s2, [])"
    using 2 by (rule rtranclp.rtrancl_into_rtrancl)
  then have "step\<^sup>*\<^sup>* (initial_state, []) (st_creating, [CreateReq])"
    using 3 by (rule rtranclp.rtrancl_into_rtrancl)
  then show ?thesis by (simp only: reachable_def)
qed

text \<open>
  C10. In every configuration the screen can reach, at most one mutating request (a
  creation or a check-in) is in flight, and \<open>isSubmitting\<close> is raised exactly while one
  is. Both the template cards and the submit button of the check-in are disabled exactly
  then, whichever of the two requests is pending. When either request settles, with a
  response or a rejection, the flag is lowered.
\<close>

theorem submitting_flag_gates_both:
  assumes "reachable (st, rs)"
  shows "length rs \<le> 1
     \<and> (isSubmitting st \<longleftrightarrow> rs \<noteq> [])
     \<and> (template_disabled st \<longleftrightarrow> rs \<noteq> [])
     \<and> (submit_disabled st \<longleftrightarrow> rs \<noteq> [])
     \<and> \<not> isSubmitting (fst (startChallenge_settle r1 st))
     \<and> \<not> isSubmitting (fst (handleCheckIn_settle r2 st))"
  using reachable_one_in_flight [OF assms]
  by (auto simp: one_in_flight_def template_disabled_def submit_disabled_def
        startChallenge_settle_def handleCheckIn_settle_def split: sum.splits)

theorem submitting_flag_gates_both_witness:
  "reachable (st_creating, [CreateReq])
   \<and> template_disabled st_creating \<and> submit_disabled st_creating
   \<and> \<not> isSubmitting (fst (handleCheckIn_settle (Inl (HttpError None)) st_creating))"
  using submitting_flag_gates_both
    [OF reachable_creating, of "Inl (HttpError None)" "Inl (HttpError None)"]
    reachable_creating
  by simp

subsection \<open>Rounding\<close>

lemma powi2_less_imp: "(2::rat) powi m < 2 powi n \<Longrightarrow> m < n"
proof (rule ccontr)
  assume lt: "(2::rat) powi m < 2 powi n" and "\<not> m < n"
  then have "n \<le> m" by simp
  then have "(2::rat) powi n \<le> 2 powi m" by (rule power_int_increasing) simp
  with lt show False by simp
qed

lemma powi2_mono: "m \<le> n \<Longrightarrow> (2::rat) powi m \<le> 2 powi n"
  by (rule power_int_increasing) simp_all

lemma bitlen_powi:
  assumes "0 < a"
  shows "2 powi (bitlen a - 1) \<le> (of_int a :: rat)" and "(of_int a :: rat) < 2 powi (bitlen a)"
proof -
  have pos: "1 \<le> bitlen a"
    using assms bitlen_eq_zero_iff [of a] bitlen_nonneg [of a] by linarith
  from bitlen_bounds [OF assms]
  have lo: "2 ^ nat (bitlen a - 1) \<le> a" and hi: "a < 2 ^ nat (bitlen a)" by simp_all
  have "(of_int (2 ^ nat (bitlen a - 1)) :: rat) \<le> of_int a"
    using lo by (simp only: of_int_le_iff)
  then show "2 powi (bitlen a - 1) \<le> (of_int a :: rat)"
    using pos by (simp add: power_int_nonneg_exp)
  have "(of_int a :: rat) < of_int (2 ^ nat (bitlen a))"
    using hi by (simp only: of_int_less_iff)
  then show "(of_int a :: rat) < 2 powi (bitlen a)"
    using pos by (simp add: power_int_nonneg_exp)
qed

lemma expo_bounds:
  assumes "0 < q"
  shows "2 powi expo q \<le> q" and "q < 2 powi (expo q + 1)"
proof -
  obtain a b where ab: "quotient_of q = (a, b)" by fastforce
  have b: "0 < b" using quotient_of_denom_pos [OF ab] .
  have q: "q = of_int a / of_int b" using quotient_of_div [OF ab] .
  have a: "0 < a" using assms b q by (simp add: zero_less_divide_iff)
  let ?k = "bitlen a - bitlen b"
  have bq: "(0::rat) < of_int b" using b by simp
  have "q < 2 powi bitlen a / of_int b"
    unfolding q using bitlen_powi(2) [OF a] bq by (simp add: divide_strict_right_mono)
  also have "\<dots> \<le> 2 powi bitlen a / 2 powi (bitlen b - 1)"
    using bitlen_powi(1) [OF b] bq by (intro divide_left_mono) (simp_all add: zero_less_mult_iff)
  also have "\<dots> = 2 powi (bitlen a - (bitlen b - 1))"
    by (subst power_int_diff) simp_all
  also have "\<dots> = 2 powi (?k + 1)"
    by (rule arg_cong [where f = "\<lambda>e. 2 powi e"]) simp
  finally have up: "q < 2 powi (?k + 1)" .
  have "(2::rat) powi (?k - 1) = 2 powi ((bitlen a - 1) - bitlen b)"
    by (rule arg_cong [where f = "\<lambda>e. 2 powi e"]) simp
  also have "\<dots> = 2 powi (bitlen a - 1) / (2 powi bitlen b :: rat)"
    by (subst power_int_diff) simp_all
  also have "\<dots> \<le> of_int a / 2 powi bitlen b"
    using bitlen_powi(1) [OF a] by (simp add: divide_right_mono)
  also have "\<dots> \<le> of_int a / of_int b"
    using bitlen_powi(2) [OF b] a bq by (intro divide_left_mono) simp_all
  finally have lo: "2 powi (?k - 1) \<le> q" unfolding q .
  have e: "expo q = (if 2 powi ?k \<le> q then ?k else ?k - 1)"
    by (simp add: expo_def ab Let_def)
  show "2 powi expo q \<le> q" using lo by (simp add: e)
  show "q < 2 powi (expo q + 1)" using up by (auto simp: e)
qed

lemma expo_unique:
  assumes "2 powi k \<le> q" and "q < 2 powi (k + 1)"
  shows "expo q = k"
proof -
  have "(0::rat) < 2 powi k" by simp
  with assms have q: "0 < q" by linarith
  have "(2::rat) powi expo q < 2 powi (k + 1)"
    using expo_bounds(1) [OF q] assms(2) by linarith
  then have 1: "expo q < k + 1" by (rule powi2_less_imp)
  have "(2::rat) powi k < 2 powi (expo q + 1)"
    using expo_bounds(2) [OF q] assms(1) by linarith
  then have 2: "k < expo q + 1" by (rule powi2_less_imp)
  from 1 2 show ?thesis by linarith
qed

lemma expo_mono:
  assumes "0 < x" and "x \<le> y"
  shows "expo x \<le> expo y"
proof -
  have y: "0 < y" using assms by linarith
  have "(2::rat) powi expo x < 2 powi (expo y + 1)"
    using expo_bounds(1) [OF assms(1)] expo_bounds(2) [OF y] assms(2) by linarith
  then have "expo x < expo y + 1" by (rule powi2_less_imp)
  then show ?thesis by linarith
qed

lemma rne_bounds: "\<lfloor>x\<rfloor> \<le> rne x" "rne x \<le> \<lfloor>x\<rfloor> + 1"
  by (simp_all add: rne_def Let_def)

lemma rne_of_int: "rne (of_int n) = n"
  by (simp add: rne_def Let_def)

lemma rne_mono:
  assumes "x \<le> y"
  shows "rne x \<le> rne y"
proof (cases "\<lfloor>x\<rfloor> = \<lfloor>y\<rfloor>")
  case True
  then have "x - of_int \<lfloor>x\<rfloor> \<le> y - of_int \<lfloor>y\<rfloor>" using assms by simp
  with True show ?thesis by (auto simp: rne_def Let_def)
next
  case False
  have "\<lfloor>x\<rfloor> \<le> \<lfloor>y\<rfloor>" using assms by (rule floor_mono)
  with False have "\<lfloor>x\<rfloor> + 1 \<le> \<lfloor>y\<rfloor>" by simp
  with rne_bounds(2) [of x] rne_bounds(1) [of y] show ?thesis by linarith
qed

lemma rne_le: "x \<le> of_int n \<Longrightarrow> rne x \<le> n"
  using rne_mono [of x "of_int n"] by (simp add: rne_of_int)

lemma rne_ge: "of_int n \<le> x \<Longrightarrow> n \<le> rne x"
  using rne_mono [of "of_int n" x] by (simp add: rne_of_int)

lemma rdq_exact:
  assumes "x = of_int m * 2 powi ulp_exp x"
  shows "rdq x = x"
proof -
  have "x / 2 powi ulp_exp x = of_int m"
    by (subst assms) simp
  then show ?thesis using assms by (simp add: rdq_def rne_of_int)
qed

lemma rdq_le_pow:
  assumes "0 < x"
  shows "rdq x \<le> 2 powi (ulp_exp x + 53)"
proof -
  let ?e = "ulp_exp x"
  have "expo x + 1 \<le> ?e + 53" by (simp add: ulp_exp_def)
  then have "(2::rat) powi (expo x + 1) \<le> 2 powi (?e + 53)" by (rule powi2_mono)
  with expo_bounds(2) [OF assms] have "x \<le> 2 powi (?e + 53)" by linarith
  also have "\<dots> = 2 powi 53 * 2 powi ?e" by (subst power_int_add) simp_all
  finally have "x / 2 powi ?e \<le> 2 powi 53" by (simp add: pos_divide_le_eq)
  then have "x / 2 powi ?e \<le> of_int (2 ^ 53)" by simp
  then have "rne (x / 2 powi ?e) \<le> 2 ^ 53" by (rule rne_le)
  then have "(of_int (rne (x / 2 powi ?e)) :: rat) \<le> of_int (2 ^ 53)"
    by (simp only: of_int_le_iff)
  then have "rdq x \<le> of_int (2 ^ 53) * 2 powi ?e"
    unfolding rdq_def by (intro mult_right_mono) simp_all
  also have "\<dots> = 2 powi (?e + 53)" by (subst power_int_add) simp_all
  finally show ?thesis .
qed

lemma rdq_ge_pow:
  assumes "0 < x" and "- 1022 \<le> expo x"
  shows "2 powi expo x \<le> rdq x"
proof -
  let ?e = "ulp_exp x"
  have e: "expo x = ?e + 52" using assms(2) by (simp add: ulp_exp_def)
  have "2 powi 52 * 2 powi ?e = (2::rat) powi (?e + 52)" by (subst power_int_add) simp_all
  also have "\<dots> \<le> x" using expo_bounds(1) [OF assms(1)] by (simp only: e [symmetric])
  finally have "2 powi 52 \<le> x / 2 powi ?e" by (simp add: pos_le_divide_eq)
  then have "of_int (2 ^ 52) \<le> x / 2 powi ?e" by simp
  then have "2 ^ 52 \<le> rne (x / 2 powi ?e)" by (rule rne_ge)
  then have "(of_int (2 ^ 52) :: rat) \<le> of_int (rne (x / 2 powi ?e))"
    by (simp only: of_int_le_iff)
  then have "of_int (2 ^ 52) * 2 powi ?e \<le> rdq x"
    unfolding rdq_def by (intro mult_right_mono) simp_all
  moreover have "of_int (2 ^ 52) * 2 powi ?e = (2::rat) powi (?e + 52)"
    by (subst power_int_add) simp_all
  ultimately show ?thesis by (simp only: e)
qed

lemma rdq_nonneg: "0 \<le> x \<Longrightarrow> 0 \<le> rdq x"
proof -
  assume "0 \<le> x"
  then have "0 \<le> x / 2 powi ulp_exp x" by simp
  then have "of_int 0 \<le> x / 2 powi ulp_exp x" by simp
  then have "0 \<le> rne (x / 2 powi ulp_exp x)" by (rule rne_ge)
  then show ?thesis by (simp add: rdq_def)
qed

lemma rdq_mono:
  assumes "0 < x" and "x \<le> y"
  shows "rdq x \<le> rdq y"
proof -
  have y: "0 < y" using assms by linarith
  have ee: "ulp_exp x \<le> ulp_exp y"
    using expo_mono [OF assms] by (simp add: ulp_exp_def)
  show ?thesis
  proof (cases "ulp_exp x = ulp_exp y")
    case True
    have "x / 2 powi ulp_exp y \<le> y / 2 powi ulp_exp y"
      using assms(2) by (simp add: divide_right_mono)
    then have "rne (x / 2 powi ulp_exp y) \<le> rne (y / 2 powi ulp_exp y)" by (rule rne_mono)
    then have "(of_int (rne (x / 2 powi ulp_exp y)) :: rat) \<le> of_int (rne (y / 2 powi ulp_exp y))"
      by (simp only: of_int_le_iff)
    then show ?thesis unfolding rdq_def True by (intro mult_right_mono) simp_all
  next
    case False
    with ee have lt: "ulp_exp x + 1 \<le> ulp_exp y" by simp
    then have n: "- 1022 \<le> expo y" and ey: "ulp_exp y = expo y - 52"
      by (auto simp: ulp_exp_def)
    have "rdq x \<le> 2 powi (ulp_exp x + 53)" using assms(1) by (rule rdq_le_pow)
    also have "\<dots> \<le> 2 powi expo y" using lt ey by (intro powi2_mono) simp
    also have "\<dots> \<le> rdq y" using y n by (rule rdq_ge_pow)
    finally show ?thesis .
  qed
qed

lemma rnd_mono:
  assumes "0 \<le> x" and "x \<le> y"
  shows "rnd x \<le> rnd y"
proof (cases "x = 0")
  case True
  then show ?thesis using assms rdq_nonneg [of y] by (simp add: rnd_def)
next
  case False
  with assms have "0 < x" by simp
  then show ?thesis using assms rdq_mono [of x y] by (simp add: rnd_def)
qed

lemma rnd_exact:
  assumes "0 < x" and "x = of_int m * 2 powi ulp_exp x"
  shows "rnd x = x"
  using assms(1) rdq_exact [OF assms(2)] by (simp add: rnd_def)

lemma rnd_pow2:
  assumes "- 1022 \<le> k"
  shows "rnd (2 powi k) = 2 powi k"
proof -
  have "(2::rat) powi k < 2 powi (k + 1)" by (rule power_int_strict_increasing) simp_all
  then have "expo (2 powi k) = k" by (intro expo_unique) simp_all
  then have e: "ulp_exp (2 powi k) = k - 52" using assms by (simp add: ulp_exp_def)
  have "(2::rat) powi k = 2 powi (52 + (k - 52))" by simp
  also have "\<dots> = of_int (2 ^ 52) * 2 powi (k - 52)" by (subst power_int_add) simp_all
  finally have k: "(2::rat) powi k = of_int (2 ^ 52) * 2 powi (k - 52)" .
  have "(2::rat) powi k = of_int (2 ^ 52) * 2 powi ulp_exp (2 powi k)"
    unfolding e by (rule k)
  moreover have "(0::rat) < 2 powi k" by simp
  ultimately show ?thesis by (rule rnd_exact [rotated])
qed

lemma rnd_zero: "rnd 0 = 0"
  by (simp add: rnd_def)

lemma rnd_one: "rnd 1 = 1"
  using rnd_pow2 [of 0] by simp

lemma rnd_hundred: "rnd 100 = 100"
proof -
  have "expo 100 = 6" by (rule expo_unique) simp_all
  then have e: "ulp_exp 100 = - 46" by (simp add: ulp_exp_def)
  have h: "(100::rat) = of_int (100 * 2 ^ 46) * 2 powi (- 46)"
    by (simp add: power_int_minus)
  have "(100::rat) = of_int (100 * 2 ^ 46) * 2 powi ulp_exp 100"
    unfolding e by (rule h)
  moreover have "(0::rat) < 100" by simp
  ultimately show ?thesis by (rule rnd_exact [rotated])
qed

lemma fl_finite:
  assumes "0 \<le> q" and "q \<le> 2 powi 1023"
  shows "fl q = Num (rnd q)" and "0 \<le> rnd q" and "rnd q \<le> 2 powi 1023"
proof -
  have "rnd 0 \<le> rnd q" using assms(1) by (intro rnd_mono) simp_all
  then show lo: "0 \<le> rnd q" by (simp add: rnd_zero)
  have "rnd ((2::rat) powi 1023) = 2 powi 1023" by (rule rnd_pow2) simp
  moreover have "rnd q \<le> rnd (2 powi 1023)" using assms by (rule rnd_mono)
  ultimately show hi: "rnd q \<le> 2 powi 1023" by (simp only:)
  have "(2::rat) powi 1023 < 2 powi 1024" by (rule power_int_strict_increasing) simp_all
  with hi have "rnd q < 2 powi 1024" by linarith
  moreover have "- ((2::rat) powi 1024) < 0" by simp
  ultimately show "fl q = Num (rnd q)" using lo by (simp add: fl_def)
qed

lemma progress_value:
  assumes "0 < duration_days ch" and "duration_days ch < 2 ^ 1023"
    and "0 \<le> completed_days ch" and "completed_days ch \<le> duration_days ch"
  shows "progress ch =
      Num (rnd (rnd (rnd (of_int (completed_days ch)) / rnd (of_int (duration_days ch))) * 100))"
    and "0 < rnd (of_int (duration_days ch))"
    and "0 \<le> rnd (of_int (completed_days ch))"
    and "rnd (of_int (completed_days ch)) \<le> rnd (of_int (duration_days ch))"
    and "rnd (rnd (of_int (completed_days ch)) / rnd (of_int (duration_days ch))) \<le> 1"
    and "0 \<le> rnd (rnd (of_int (completed_days ch)) / rnd (of_int (duration_days ch)))"
proof -
  let ?c = "of_int (completed_days ch) :: rat" and ?d = "of_int (duration_days ch) :: rat"
  have "duration_days ch \<le> 2 ^ 1023" using assms(2) by simp
  then have "?d \<le> of_int (2 ^ 1023)" by (simp only: of_int_le_iff)
  then have d_hi: "?d \<le> 2 powi 1023" by simp
  have d_lo: "1 \<le> ?d" using assms(1) by simp
  have c_lo: "0 \<le> ?c" using assms(3) by simp
  have c_d: "?c \<le> ?d" using assms(4) by simp
  have "rnd 1 \<le> rnd ?d" using d_lo by (intro rnd_mono) simp_all
  then show D: "0 < rnd ?d" by (simp add: rnd_one)
  have fd: "fl ?d = Num (rnd ?d)" using d_lo d_hi by (intro fl_finite) simp_all
  have fc: "fl ?c = Num (rnd ?c)" using c_lo c_d d_hi by (intro fl_finite) simp_all
  show C: "0 \<le> rnd ?c" using c_lo c_d d_hi by (intro fl_finite) simp_all
  show CD: "rnd ?c \<le> rnd ?d" using c_lo c_d by (rule rnd_mono)
  let ?x = "rnd ?c / rnd ?d"
  have x_lo: "0 \<le> ?x" using C D by simp
  have x_hi: "?x \<le> 1" using CD D by (simp add: pos_divide_le_eq)
  have "(1::rat) \<le> 2 powi 1023" by simp
  with x_hi have x_hi': "?x \<le> 2 powi 1023" by linarith
  have fx: "fl ?x = Num (rnd ?x)" using x_lo x_hi' by (rule fl_finite)
  show R_lo: "0 \<le> rnd ?x" using x_lo x_hi' by (rule fl_finite)
  have "rnd ?x \<le> rnd 1" using x_lo x_hi by (rule rnd_mono)
  then show R_hi: "rnd ?x \<le> 1" by (simp add: rnd_one)
  have y_lo: "0 \<le> rnd ?x * 100" using R_lo by simp
  have "(100::rat) \<le> 2 powi 1023" by simp
  with R_hi have y_hi: "rnd ?x * 100 \<le> 2 powi 1023" by linarith
  have fy: "fl (rnd ?x * 100) = Num (rnd (rnd ?x * 100))" using y_lo y_hi by (rule fl_finite)
  show "progress ch = Num (rnd (rnd ?x * 100))"
    using D by (simp add: progress_def js_of_int_def fd fc fx fy)
qed

lemma rne_err: "\<bar>of_int (rne x) - x\<bar> \<le> 1 / 2"
proof -
  have "of_int \<lfloor>x\<rfloor> \<le> x" and "x < of_int \<lfloor>x\<rfloor> + 1" by linarith+
  then show ?thesis by (auto simp: rne_def Let_def abs_le_iff)
qed

lemma rdq_err:
  assumes "0 < x" and "- 1022 \<le> expo x"
  shows "\<bar>rdq x - x\<bar> \<le> x * 2 powi (- 53)"
proof -
  let ?e = "ulp_exp x"
  let ?t = "x / 2 powi ?e"
  have e: "?e = expo x - 52" using assms(2) by (simp add: ulp_exp_def)
  have P: "(0::rat) < 2 powi ?e" by simp
  have "rdq x - x = (of_int (rne ?t) - ?t) * 2 powi ?e"
    by (simp add: rdq_def algebra_simps)
  then have "\<bar>rdq x - x\<bar> = \<bar>of_int (rne ?t) - ?t\<bar> * 2 powi ?e"
    by (simp add: abs_mult)
  also have "\<dots> \<le> 1 / 2 * 2 powi ?e"
    using rne_err [of ?t] by (intro mult_right_mono) simp_all
  also have "\<dots> = 2 powi (- 1) * 2 powi ?e" by simp
  also have "\<dots> = 2 powi (- 1 + ?e)" by (subst power_int_add) simp_all
  also have "\<dots> = 2 powi (expo x + (- 53))"
    by (rule arg_cong [where f = "\<lambda>e. 2 powi e"]) (simp add: e)
  also have "\<dots> = 2 powi expo x * 2 powi (- 53)" by (subst power_int_add) simp_all
  also have "\<dots> \<le> x * 2 powi (- 53)"
    using expo_bounds(1) [OF assms(1)] by (intro mult_right_mono) simp_all
  finally show ?thesis .
qed

lemma expo_one: "expo 1 = 0"
  by (rule expo_unique) simp_all

lemma rnd_int_exact:
  assumes "0 < n" and "n \<le> 2 ^ 53"
  shows "rnd (of_int n) = of_int n"
proof (cases "n = 2 ^ 53")
  case True
  have "rnd ((2::rat) powi 53) = 2 powi 53" by (rule rnd_pow2) simp
  then show ?thesis by (simp add: True)
next
  case False
  let ?q = "of_int n :: rat"
  let ?k = "expo ?q"
  have q: "0 < ?q" using assms(1) by simp
  have "n < 2 ^ 53" using assms(2) False by simp
  then have "?q < of_int (2 ^ 53)" by (simp only: of_int_less_iff)
  then have "?q < 2 powi 53" by simp
  with expo_bounds(1) [OF q] have "(2::rat) powi ?k < 2 powi 53" by linarith
  then have k_hi: "?k < 53" by (rule powi2_less_imp)
  have "expo 1 \<le> ?k" using assms(1) by (intro expo_mono) simp_all
  then have k_lo: "0 \<le> ?k" by (simp add: expo_one)
  have e: "ulp_exp ?q = ?k - 52" using k_lo by (simp add: ulp_exp_def)
  let ?j = "nat (52 - ?k)"
  have "(2::rat) powi (?k - 52) = 2 powi (- int ?j)"
    by (rule arg_cong [where f = "\<lambda>e. 2 powi e"]) (use k_hi in simp)
  also have "\<dots> = 1 / 2 ^ ?j" by (simp only: power_int_minus_divide power_int_of_nat)
  finally have p: "(2::rat) powi (?k - 52) = 1 / 2 ^ ?j" .
  have h: "?q = of_int (n * 2 ^ ?j) * 2 powi (?k - 52)"
    unfolding p by simp
  have "?q = of_int (n * 2 ^ ?j) * 2 powi ulp_exp ?q"
    unfolding e by (rule h)
  with q show ?thesis by (rule rnd_exact)
qed

lemma expo_ge:
  assumes "2 powi k \<le> x"
  shows "k \<le> expo x"
proof -
  have "(0::rat) < 2 powi k" by simp
  with assms have x: "0 < x" by linarith
  have "(2::rat) powi k < 2 powi (expo x + 1)"
    using expo_bounds(2) [OF x] assms by linarith
  then have "k < expo x + 1" by (rule powi2_less_imp)
  then show ?thesis by simp
qed

lemma rnd_close:
  assumes "2 powi (- 53) \<le> x"
  shows "\<bar>rnd x - x\<bar> \<le> x / 2 ^ 53" and "2 powi (- 53) \<le> rnd x"
proof -
  have "(0::rat) < 2 powi (- 53)" by simp
  with assms have x: "0 < x" by linarith
  have k: "- 53 \<le> expo x" using assms by (rule expo_ge)
  then have n: "- 1022 \<le> expo x" by simp
  have r: "rnd x = rdq x" using x by (simp add: rnd_def)
  have "\<bar>rdq x - x\<bar> \<le> x * 2 powi (- 53)" using x n by (rule rdq_err)
  then show "\<bar>rnd x - x\<bar> \<le> x / 2 ^ 53"
    by (simp add: r power_int_minus_divide)
  have "(2::rat) powi (- 53) \<le> 2 powi expo x" using k by (rule powi2_mono)
  also have "\<dots> \<le> rdq x" using x n by (rule rdq_ge_pow)
  finally show "2 powi (- 53) \<le> rnd x" by (simp only: r)
qed

lemma two_roundings:
  fixes x R p :: rat
  assumes "\<bar>R - x\<bar> \<le> x / 2 ^ 53" and "\<bar>p - R * 100\<bar> \<le> R * 100 / 2 ^ 53" and "0 < x"
  shows "\<bar>p - 100 * x\<bar> \<le> 100 * x / 2 ^ 51"
proof -
  have a1: "R - x \<le> x / 2 ^ 53" using assms(1) by (rule order_trans [OF abs_ge_self])
  have a2: "- (R - x) \<le> x / 2 ^ 53" using assms(1) by (rule order_trans [OF abs_ge_minus_self])
  have b1: "p - R * 100 \<le> R * 100 / 2 ^ 53"
    using assms(2) by (rule order_trans [OF abs_ge_self])
  have b2: "- (p - R * 100) \<le> R * 100 / 2 ^ 53"
    using assms(2) by (rule order_trans [OF abs_ge_minus_self])
  show ?thesis
  proof (rule abs_leI)
    show "p - 100 * x \<le> 100 * x / 2 ^ 51" using a1 b1 assms(3) by simp
    show "- (p - 100 * x) \<le> 100 * x / 2 ^ 51" using a2 b2 assms(3) by simp
  qed
qed

lemma percent_close:
  fixes c d :: int
  assumes "0 < c" and "c \<le> d" and "d \<le> 2 ^ 53"
  shows "\<bar>rnd (rnd (rnd (of_int c) / rnd (of_int d)) * 100) - 100 * of_int c / of_int d\<bar>
           \<le> (100 * of_int c / of_int d) / 2 ^ 51"
proof -
  let ?x = "of_int c / of_int d :: rat"
  have d: "0 < d" using assms by simp
  have c53: "c \<le> 2 ^ 53" using assms by simp
  have rc: "rnd (of_int c) = of_int c" using assms(1) c53 by (rule rnd_int_exact)
  have rd: "rnd (of_int d) = of_int d" using d assms(3) by (rule rnd_int_exact)
  have "(of_int d :: rat) \<le> of_int (2 ^ 53)" using assms(3) by (simp only: of_int_le_iff)
  then have d_hi: "(of_int d :: rat) \<le> 2 ^ 53" by simp
  have dq: "(0::rat) < of_int d" using d by simp
  have "(1::rat) \<le> of_int c" using assms(1) by simp
  then have "1 / 2 ^ 53 \<le> of_int c / (2 ^ 53 :: rat)" by (simp add: divide_right_mono)
  also have "\<dots> \<le> ?x" using d_hi dq assms(1) by (intro divide_left_mono) simp_all
  finally have x_lo: "2 powi (- 53) \<le> ?x" by (simp add: power_int_minus_divide)
  let ?R = "rnd ?x"
  have R1: "\<bar>?R - ?x\<bar> \<le> ?x / 2 ^ 53" and R2: "2 powi (- 53) \<le> ?R"
    using x_lo by (rule rnd_close)+
  have "(0::rat) < 2 powi (- 53)" by simp
  with R2 have Rpos: "0 < ?R" by linarith
  then have "?R \<le> ?R * 100" by simp
  with R2 have y_lo: "2 powi (- 53) \<le> ?R * 100" by linarith
  let ?p = "rnd (?R * 100)"
  have P1: "\<bar>?p - ?R * 100\<bar> \<le> ?R * 100 / 2 ^ 53"
    using y_lo by (rule rnd_close)
  have xpos: "0 < ?x" using assms(1) dq by simp
  from R1 P1 xpos have "\<bar>?p - 100 * ?x\<bar> \<le> 100 * ?x / 2 ^ 51"
    by (rule two_roundings)
  then show ?thesis by (simp add: rc rd)
qed

lemma rnd_int_sign:
  fixes c :: int
  shows "0 < c \<Longrightarrow> 0 < rnd (of_int c)" and "c < 0 \<Longrightarrow> rnd (of_int c) < 0"
proof -
  have pos: "0 < rnd (of_int n)" if "0 < n" for n :: int
  proof -
    have "rnd 1 \<le> rnd (of_int n)" using that by (intro rnd_mono) simp_all
    then show ?thesis by (simp add: rnd_one)
  qed
  show "0 < c \<Longrightarrow> 0 < rnd (of_int c)" by (rule pos)
  assume "c < 0"
  then have "0 < rnd (of_int (- c))" by (intro pos) simp
  then show "rnd (of_int c) < 0" using \<open>c < 0\<close> by (simp add: rnd_def)
qed

lemma rne_nearest:
  assumes "\<bar>x - of_int m\<bar> < 1 / 2"
  shows "rne x = m"
proof (cases "of_int m \<le> x")
  case True
  with assms have "\<lfloor>x\<rfloor> = m" by (intro floor_unique) (simp_all add: abs_less_iff)
  with assms True show ?thesis by (simp add: rne_def Let_def abs_less_iff)
next
  case False
  with assms have "\<lfloor>x\<rfloor> = m - 1" by (intro floor_unique) (simp_all add: abs_less_iff)
  with assms False show ?thesis by (simp add: rne_def Let_def abs_less_iff)
qed

lemma rnd_eval:
  assumes "2 powi k \<le> x" and "x < 2 powi (k + 1)" and "- 1022 \<le> k"
    and "\<bar>x / 2 powi (k - 52) - of_int m\<bar> < 1 / 2"
  shows "rnd x = of_int m * 2 powi (k - 52)"
proof -
  have "(0::rat) < 2 powi k" by simp
  with assms(1) have x: "0 < x" by linarith
  have "expo x = k" using assms(1,2) by (rule expo_unique)
  then have "ulp_exp x = k - 52" using assms(3) by (simp add: ulp_exp_def)
  then show ?thesis using x rne_nearest [OF assms(4)] by (simp add: rnd_def rdq_def)
qed

lemma rnd_third: "rnd (1 / 3) = 6004799503160661 / 2 ^ 54"
proof -
  have "rnd (1 / 3) = of_int 6004799503160661 * 2 powi (- 2 - 52)"
    by (rule rnd_eval) simp_all
  then show ?thesis by simp
qed

lemma rnd_third_times_100:
  "rnd (6004799503160661 / 2 ^ 54 * 100) = 2345624805922133 / 70368744177664"
proof -
  have "rnd (6004799503160661 / 2 ^ 54 * 100) = of_int 4691249611844266 * 2 powi (5 - 52)"
    by (rule rnd_eval) simp_all
  then show ?thesis by simp
qed

lemma rnd_100_thirds: "rnd (100 / 3) = 4691249611844267 / 140737488355328"
proof -
  have "rnd (100 / 3) = of_int 4691249611844267 * 2 powi (5 - 52)"
    by (rule rnd_eval) simp_all
  then show ?thesis by simp
qed

lemma js_of_int_small: "0 < n \<Longrightarrow> n \<le> 2 ^ 53 \<Longrightarrow> js_of_int n = Num (of_int n)"
proof -
  assume n: "0 < n" "n \<le> 2 ^ 53"
  have "(of_int n :: rat) \<le> of_int (2 ^ 53)" using n(2) by (simp only: of_int_le_iff)
  also have "\<dots> \<le> 2 powi 1023" by simp
  finally have "fl (of_int n) = Num (rnd (of_int n))" using n(1) by (intro fl_finite) simp_all
  then show ?thesis using n by (simp add: js_of_int_def rnd_int_exact)
qed

lemma progress_ch0: "progress ch0 = Num (2345624805922133 / 70368744177664)"
proof -
  have "progress ch0 = Num (rnd (rnd (rnd (of_int 1) / rnd (of_int 3)) * 100))"
    using progress_value(1) [of ch0] by (simp add: ch0_def)
  moreover have "rnd (of_int 1) = (1::rat)" using rnd_int_exact [of 1] by simp
  moreover have "rnd (of_int 3) = (3::rat)" using rnd_int_exact [of 3] by simp
  ultimately show ?thesis by (simp only: rnd_third rnd_third_times_100)
qed

lemma js_100_times_1_over_3:
  "jdiv (jmul (Num 100) (js_of_int 1)) (js_of_int 3) = Num (4691249611844267 / 140737488355328)"
proof -
  have 1: "js_of_int 1 = Num 1" using js_of_int_small [of 1] by simp
  have 3: "js_of_int 3 = Num 3" using js_of_int_small [of 3] by simp
  have "fl 100 = Num (rnd 100)" by (rule fl_finite) simp_all
  then have h: "fl 100 = Num 100" by (simp only: rnd_hundred)
  have "fl (100 / 3) = Num (rnd (100 / 3))" by (rule fl_finite) simp_all
  then have t: "fl (100 / 3) = Num (4691249611844267 / 140737488355328)"
    by (simp only: rnd_100_thirds)
  have "jdiv (jmul (Num 100) (js_of_int 1)) (js_of_int 3) = jdiv (fl 100) (Num 3)"
    by (simp add: 1 3)
  also have "\<dots> = fl (100 / 3)" by (simp add: h)
  finally show ?thesis by (simp only: t)
qed

subsection \<open>The progress percentage\<close>

text \<open>
  C1, as stated, fails: for 1 completed day of 3 the progress is the number
  33.33333333333333 (exactly \<open>2345624805922133 / 2^46\<close>). That is not \<open>100 * 1 / 3\<close>, and
  it is not what the expression \<open>100 * completedDays / durationDays\<close> evaluates to either
  (33.333333333333336).
\<close>

theorem progress_formula_counterexample:
  "progress ch0 = Num (2345624805922133 / 70368744177664)
   \<and> progress ch0 \<noteq> Num (100 * of_int (completed_days ch0) / of_int (duration_days ch0))
   \<and> progress ch0 \<noteq>
       jdiv (jmul (Num 100) (js_of_int (completed_days ch0))) (js_of_int (duration_days ch0))"
proof -
  have "completed_days ch0 = 1" and "duration_days ch0 = 3" by (simp_all add: ch0_def)
  then show ?thesis by (simp add: progress_ch0 js_100_times_1_over_3)
qed



text \<open>
  C1, amended. For a duration \<open>d\<close> with \<open>0 < d < 2^1023\<close> and completed days \<open>c\<close> with
  \<open>0 \<le> c \<le> d\<close>, the progress is the binary64 result of \<open>(c / d) * 100\<close>: a finite number
  in \<open>[0, 100]\<close>, non-decreasing in \<open>c\<close>, exactly 0 at \<open>c = 0\<close> and exactly 100 at
  \<open>c = d\<close>. It need not equal \<open>100 * c / d\<close>; for \<open>d \<le> 2^53\<close> it differs from that value by
  at most the fraction \<open>2^-51\<close> of it.
\<close>

theorem progress_range_monotone:
  assumes "0 < duration_days ch" and "duration_days ch < 2 ^ 1023"
    and "duration_days ch' = duration_days ch"
    and "0 \<le> completed_days ch" and "completed_days ch \<le> completed_days ch'"
    and "completed_days ch' \<le> duration_days ch"
  shows "\<exists>p p'. progress ch = Num p \<and> progress ch' = Num p'
           \<and> 0 \<le> p \<and> p \<le> p' \<and> p' \<le> 100
           \<and> (completed_days ch = 0 \<longrightarrow> p = 0)
           \<and> (completed_days ch' = duration_days ch \<longrightarrow> p' = 100)
           \<and> (duration_days ch \<le> 2 ^ 53 \<longrightarrow>
                \<bar>p - 100 * of_int (completed_days ch) / of_int (duration_days ch)\<bar>
                  \<le> (100 * of_int (completed_days ch) / of_int (duration_days ch)) / 2 ^ 51)"
proof -
  let ?c = "of_int (completed_days ch) :: rat" and ?c' = "of_int (completed_days ch') :: rat"
  let ?d = "of_int (duration_days ch) :: rat"
  let ?x = "rnd ?c / rnd ?d" and ?x' = "rnd ?c' / rnd ?d"
  let ?p = "rnd (rnd ?x * 100)" and ?p' = "rnd (rnd ?x' * 100)"
  have c_le: "completed_days ch \<le> duration_days ch" using assms by linarith
  have c'_lo: "0 \<le> completed_days ch'" using assms by linarith
  have d': "0 < duration_days ch'" "duration_days ch' < 2 ^ 1023"
    and c'_le: "completed_days ch' \<le> duration_days ch'"
    using assms by simp_all
  note v = progress_value [OF assms(1,2,4) c_le]
  note v' = progress_value [OF d' c'_lo c'_le, unfolded assms(3)]
  have "rnd ?c \<le> rnd ?c'" using assms(4,5) by (intro rnd_mono) simp_all
  then have "?x \<le> ?x'" using v(2) by (simp add: divide_right_mono)
  then have "rnd ?x \<le> rnd ?x'" using v(2,3) by (intro rnd_mono) simp_all
  then have "rnd ?x * 100 \<le> rnd ?x' * 100" by simp
  then have mono: "?p \<le> ?p'" using v(6) by (intro rnd_mono) simp_all
  have "rnd 0 \<le> ?p" using v(6) by (intro rnd_mono) simp_all
  then have lo: "0 \<le> ?p" by (simp add: rnd_zero)
  have "?p' \<le> rnd 100" using v'(5,6) by (intro rnd_mono) simp_all
  then have hi: "?p' \<le> 100" by (simp add: rnd_hundred)
  have zero: "?p = 0" if "completed_days ch = 0"
    using that by (simp add: rnd_zero)
  have full: "?p' = 100" if "completed_days ch' = duration_days ch"
    using that v(2) by (simp add: rnd_one rnd_hundred)
  have close: "\<bar>?p - 100 * ?c / ?d\<bar> \<le> (100 * ?c / ?d) / 2 ^ 51" if "duration_days ch \<le> 2 ^ 53"
  proof (cases "completed_days ch = 0")
    case True
    then show ?thesis by (simp add: rnd_zero)
  next
    case False
    with assms(4) have "0 < completed_days ch" by simp
    then show ?thesis using c_le that by (rule percent_close)
  qed
  from v(1) v'(1) mono lo hi zero full close show ?thesis by blast
qed

theorem progress_range_monotone_witness:
  "\<exists>p p'. progress ch0 = Num p \<and> progress (ch0\<lparr>completed_days := 3\<rparr>) = Num p'
     \<and> 0 \<le> p \<and> p \<le> p' \<and> p' = 100
     \<and> \<bar>p - 100 / 3\<bar> \<le> (100 / 3) / 2 ^ 51"
  using progress_range_monotone [of ch0 "ch0\<lparr>completed_days := 3\<rparr>"]
  by (simp add: ch0_def)

text \<open>
  C3, as stated, fails: with a duration of 0 the progress is NaN when no day is completed
  and \<open>+Infinity\<close> when one is; it is not 0.
\<close>

theorem zero_duration_counterexample:
  "progress (ch0\<lparr>duration_days := 0, completed_days := 0\<rparr>) = NaN
   \<and> progress (ch0\<lparr>duration_days := 0\<rparr>) = PInf"
proof -
  have 0: "js_of_int 0 = Num 0" by (simp add: js_of_int_def fl_def rnd_def)
  have 1: "js_of_int 1 = Num 1" using js_of_int_small [of 1] by simp
  show ?thesis by (simp add: progress_def ch0_def 0 1)
qed

text \<open>
  C3, amended. For a challenge whose duration is 0 the division is not guarded: the
  progress is NaN when the completed days are 0, \<open>+Infinity\<close> when they are positive and
  \<open>-Infinity\<close> when they are negative. Every template of the catalog has a positive
  duration, and a creation request carries the duration of its template.
\<close>

theorem zero_duration_unguarded:
  "(duration_days ch = 0 \<longrightarrow>
      progress ch =
        (if completed_days ch = 0 then NaN else if 0 < completed_days ch then PInf else NInf))
   \<and> (\<forall>t\<in>set challengeTemplates. 0 < duration t)
   \<and> (\<exists>b. snd (startChallenge_begin t st) = [HttpPostCreate b] \<and> cb_duration_days b = duration t)"
proof -
  let ?c = "completed_days ch"
  have z: "js_of_int 0 = Num 0" by (simp add: js_of_int_def fl_def rnd_def)
  have "progress ch = (if ?c = 0 then NaN else if 0 < ?c then PInf else NInf)"
    if d: "duration_days ch = 0"
  proof -
    consider "?c = 0" | "0 < ?c" | "?c < 0" by linarith
    then show ?thesis
    proof cases
      case 1
      then show ?thesis by (simp add: progress_def d z)
    next
      case 2
      then have "0 < rnd (of_int ?c)" by (rule rnd_int_sign)
      then have "jdiv (js_of_int ?c) (Num 0) = PInf"
        by (auto simp: js_of_int_def fl_def)
      with 2 show ?thesis by (simp add: progress_def d z)
    next
      case 3
      then have "rnd (of_int ?c) < 0" by (rule rnd_int_sign)
      then have "jdiv (js_of_int ?c) (Num 0) = NInf"
        by (auto simp: js_of_int_def fl_def)
      with 3 show ?thesis by (simp add: progress_def d z)
    qed
  qed
  moreover have "\<forall>t\<in>set challengeTemplates. 0 < duration t"
    by (simp add: challengeTemplates_def)
  moreover have "\<exists>b. snd (startChallenge_begin t st) = [HttpPostCreate b]
      \<and> cb_duration_days b = duration t"
    by (simp add: startChallenge_begin_def)
  ultimately show ?thesis by blast
qed

theorem zero_duration_unguarded_witness:
  "progress (ch0\<lparr>duration_days := 0, completed_days := 2\<rparr>) = PInf
   \<and> 0 < duration (hd challengeTemplates)"
  using zero_duration_unguarded [of "ch0\<lparr>duration_days := 0, completed_days := 2\<rparr>"]
  by (simp add: challengeTemplates_def)

subsection \<open>Days remaining\<close>






end
